theory Spec2Isabelle
  imports Complex_Main
begin

section \<open>Nginx log watcher: failover and error-rate alerts\<close>

text \<open>
  The development follows \<^verbatim>\<open>watcher.py\<close>: the line parser (\<^verbatim>\<open>LOG_PATTERN\<close>,
  \<^verbatim>\<open>parse_log_line\<close>), the notifier (\<^verbatim>\<open>send_slack_alert\<close>), the failover detector
  (\<^verbatim>\<open>check_failover\<close>), the error-rate check (\<^verbatim>\<open>check_error_rate\<close>) and the body of the
  loop of \<^verbatim>\<open>tail_log_file\<close>. Global variables become the fields of a state record that
  each function takes and returns; the clock, the HTTP endpoint and the console are the
  environment: a clock reading and the outcome of a POST are arguments, what is printed
  or posted is returned as a list of effects.

  A Python \<^verbatim>\<open>str\<close> is a \<^typ>\<open>string\<close>: the characters are those with a code point below
  256, which covers the delimiters, digits and white space the parser looks at.
\<close>

subsection \<open>String operations of the interpreter\<close>

text \<open>\<^verbatim>\<open>str.isspace\<close> on one character: TAB to CR, FS to US and space, NEL, NBSP.\<close>

definition is_space :: "char \<Rightarrow> bool" where
  "is_space c =
     (let n = (of_char c :: nat)
      in (9 \<le> n \<and> n \<le> 13) \<or> (28 \<le> n \<and> n \<le> 32) \<or> n = 133 \<or> n = 160)"

text \<open>\<^verbatim>\<open>s.strip()\<close>: white space removed at both ends.\<close>

definition strip :: "string \<Rightarrow> string" where
  "strip s = rev (dropWhile is_space (rev (dropWhile is_space s)))"

text \<open>
  \<^verbatim>\<open>s.split(sep)\<close> for a separator of one character: the pieces between the
  separators, in order; there is always at least one piece.
\<close>

fun split_on :: "char \<Rightarrow> string \<Rightarrow> string list" where
  "split_on sep [] = [[]]"
| "split_on sep (c # cs) =
     (if c = sep then [] # split_on sep cs
      else (case split_on sep cs of
              [] \<Rightarrow> [[c]]
            | w # ws \<Rightarrow> (c # w) # ws))"

definition is_digit :: "char \<Rightarrow> bool" where
  "is_digit c = (48 \<le> (of_char c :: nat) \<and> (of_char c :: nat) \<le> 57)"

definition digit_val :: "char \<Rightarrow> int" where
  "digit_val c = int (of_char c) - 48"

text \<open>
  The digit part of a decimal literal accepted by \<^verbatim>\<open>int\<close>: digits, with single
  underscores allowed between two digits.
\<close>

fun digits_ok :: "string \<Rightarrow> bool" where
  "digits_ok [] = False"
| "digits_ok [c] = is_digit c"
| "digits_ok (c # d # cs) =
     (is_digit c \<and> (if d = CHR ''_'' then digits_ok cs else digits_ok (d # cs)))"

definition digits_value :: "string \<Rightarrow> int" where
  "digits_value s = foldl (\<lambda>acc c. 10 * acc + digit_val c) 0 (filter (\<lambda>c. c \<noteq> CHR ''_'') s)"

text \<open>
  \<^verbatim>\<open>int(s)\<close> in base ten: \<open>None\<close> stands for \<^verbatim>\<open>ValueError\<close>. White space around the
  literal is ignored, one sign is allowed. (The interpreter's optional limit on the
  number of digits, 4300 by default in recent versions, is not modelled.)
\<close>

definition py_int :: "string \<Rightarrow> int option" where
  "py_int s =
     (let t = strip s;
          neg = (t \<noteq> [] \<and> hd t = CHR ''-'');
          body = (if t \<noteq> [] \<and> (hd t = CHR ''-'' \<or> hd t = CHR ''+'') then tl t else t)
      in if digits_ok body
         then Some (if neg then - digits_value body else digits_value body)
         else None)"

subsection \<open>The log pattern\<close>

text \<open>
  \<^verbatim>\<open>LOG_PATTERN\<close> is the concatenation of four pieces, each a literal up to an opening
  double quote, a group \<^verbatim>\<open>[^"]*\<close> and the closing double quote; the pieces are
  separated by one space. A group is followed by a double quote, which the group
  itself cannot contain, so the greedy match of the group is the only one that can
  succeed: matching at a position is deterministic.
\<close>

definition dq :: char where
  "dq = CHR 0x22"

fun match_literal :: "string \<Rightarrow> string \<Rightarrow> string option" where
  "match_literal [] s = Some s"
| "match_literal (c # cs) [] = None"
| "match_literal (c # cs) (x # xs) = (if c = x then match_literal cs xs else None)"

definition match_group :: "string \<Rightarrow> string \<times> string" where
  "match_group s = (takeWhile (\<lambda>c. c \<noteq> dq) s, dropWhile (\<lambda>c. c \<noteq> dq) s)"

record groupdict =
  group_pool :: string
  group_release :: string
  group_upstream_status :: string
  group_upstream_addr :: string

definition lit_pool :: string where
  \<open>lit_pool = ''pool="''\<close>

definition lit_release :: string where
  \<open>lit_release = ''" release="''\<close>

definition lit_upstream_status :: string where
  \<open>lit_upstream_status = ''" upstream_status="''\<close>

definition lit_upstream_addr :: string where
  \<open>lit_upstream_addr = ''" upstream_addr="''\<close>

definition lit_end :: string where
  \<open>lit_end = ''"''\<close>

text \<open>\<^verbatim>\<open>LOG_PATTERN.match\<close>: the pattern matched at the start of the string.\<close>

definition LOG_PATTERN_match :: "string \<Rightarrow> groupdict option" where
  "LOG_PATTERN_match s =
     (case match_literal lit_pool s of None \<Rightarrow> None | Some s1 \<Rightarrow>
      (case match_literal lit_release (snd (match_group s1)) of None \<Rightarrow> None | Some s2 \<Rightarrow>
       (case match_literal lit_upstream_status (snd (match_group s2)) of None \<Rightarrow> None | Some s3 \<Rightarrow>
        (case match_literal lit_upstream_addr (snd (match_group s3)) of None \<Rightarrow> None | Some s4 \<Rightarrow>
         (case match_literal lit_end (snd (match_group s4)) of None \<Rightarrow> None | Some s5 \<Rightarrow>
            Some \<lparr> group_pool = fst (match_group s1),
                   group_release = fst (match_group s2),
                   group_upstream_status = fst (match_group s3),
                   group_upstream_addr = fst (match_group s4) \<rparr>)))))"

text \<open>\<^verbatim>\<open>LOG_PATTERN.search\<close>: the match at the leftmost position that has one.\<close>

fun LOG_PATTERN_search :: "string \<Rightarrow> groupdict option" where
  "LOG_PATTERN_search [] = LOG_PATTERN_match []"
| "LOG_PATTERN_search (c # cs) =
     (case LOG_PATTERN_match (c # cs) of
        Some g \<Rightarrow> Some g
      | None \<Rightarrow> LOG_PATTERN_search cs)"

subsection \<open>The line parser\<close>

record log_record =
  pool :: string
  release :: string
  upstream_status :: int
  upstream_addr :: string

text \<open>
  The status of a record: the text after the last comma of the group, stripped and
  read by \<^verbatim>\<open>int\<close>; \<open>0\<close> for an empty group, for \<^verbatim>\<open>-\<close> and when \<^verbatim>\<open>int\<close> raises
  \<^verbatim>\<open>ValueError\<close>.
\<close>

definition status_code :: "string \<Rightarrow> int" where
  "status_code us =
     (if us \<noteq> [] \<and> us \<noteq> ''-''
      then (case py_int (strip (last (split_on CHR '','' us))) of
              Some n \<Rightarrow> n
            | None \<Rightarrow> 0)
      else 0)"

definition parse_log_line :: "string \<Rightarrow> log_record option" where
  "parse_log_line line =
     (case LOG_PATTERN_search line of
        None \<Rightarrow> None
      | Some data \<Rightarrow>
          Some \<lparr> pool = (if group_pool data \<noteq> ''-'' then group_pool data else ''unknown''),
                 release = (if group_release data \<noteq> ''-'' then group_release data else ''unknown''),
                 upstream_status = status_code (group_upstream_status data),
                 upstream_addr = group_upstream_addr data \<rparr>)"

subsection \<open>Configuration, state and environment\<close>

text \<open>
  The module reads its configuration from the environment once. \<^verbatim>\<open>WINDOW_SIZE\<close> is a
  natural number: \<^verbatim>\<open>deque(maxlen=WINDOW_SIZE)\<close> raises for a negative size, so the module
  does not load with one. The error-rate threshold and the rate are Python floats, of a
  type \<open>'f\<close> that is left open.
\<close>

record 'f config =
  SLACK_WEBHOOK_URL :: string
  ERROR_RATE_THRESHOLD :: 'f
  WINDOW_SIZE :: nat
  ALERT_COOLDOWN_SEC :: int

text \<open>
  The three float operations of \<^verbatim>\<open>check_error_rate\<close>: the true division of two
  integers, the product of a float and an integer, and the comparison of two floats.
  They are parameters of the functions; \<open>double_ops\<close> below gives them as the
  interpreter computes them.
\<close>

record 'f float_ops =
  truediv :: "int \<Rightarrow> int \<Rightarrow> 'f"
  times_int :: "'f \<Rightarrow> int \<Rightarrow> 'f"
  greater :: "'f \<Rightarrow> 'f \<Rightarrow> bool"

text \<open>
  The global variables. A clock reading (\<^verbatim>\<open>time.time()\<close>, seconds) is a real number;
  the two alert times start at \<open>0\<close>.
\<close>

record state =
  last_pool :: "string option"
  request_window :: "int list"
  last_failover_alert :: real
  last_error_alert :: real

definition initial_state :: state where
  "initial_state =
     \<lparr> last_pool = None, request_window = [], last_failover_alert = 0, last_error_alert = 0 \<rparr>"

text \<open>
  What \<^verbatim>\<open>requests.post\<close> does when it is called: it returns a response with a status
  code and a body, or it raises an exception (a subclass of \<^verbatim>\<open>Exception\<close>).
\<close>

datatype exn = Timeout | ConnectionError | OtherException string

datatype post_outcome = Response int string | Raised exn

text \<open>The alert texts, by their variable parts.\<close>

datatype 'f message =
    Failover_detected string string
  | High_error_rate 'f 'f int nat nat

datatype emoji = Emoji_failover | Emoji_error | Emoji_recovery | Emoji_info | Emoji_default

datatype 'f console =
    No_webhook "'f message"
  | Alert_sent string
  | Alert_failed_status int
  | Alert_failed_response string
  | Alert_error exn
  | Initial_pool string
  | In_cooldown int
  | Failover_line string string
  | Error_rate_line 'f int nat

text \<open>
  An effect is a line printed on the console or a POST of a payload to a URL; of the
  payload, the emoji and the message are kept (the time stamp in it is left out).
\<close>

datatype 'f effect =
    Print "'f console"
  | Post string emoji "'f message"

subsection \<open>The notifier\<close>

definition emoji_for :: "string \<Rightarrow> emoji" where
  "emoji_for alert_type =
     (if alert_type = ''failover'' then Emoji_failover
      else if alert_type = ''error'' then Emoji_error
      else if alert_type = ''recovery'' then Emoji_recovery
      else if alert_type = ''info'' then Emoji_info
      else Emoji_default)"

text \<open>The body of the \<^verbatim>\<open>try\<close> block: \<open>Inl\<close> is an exception raised in it.\<close>

definition try_post :: "post_outcome \<Rightarrow> string \<Rightarrow> exn + (bool \<times> 'f effect list)" where
  "try_post outcome alert_type =
     (case outcome of
        Raised e \<Rightarrow> Inl e
      | Response code text \<Rightarrow>
          if code = 200 then Inr (True, [Print (Alert_sent alert_type)])
          else Inr (False, [Print (Alert_failed_status code),
                            Print (Alert_failed_response (take 100 text))]))"

text \<open>
  \<^verbatim>\<open>send_slack_alert\<close>: the result is \<open>Inl e\<close> when the exception \<open>e\<close> leaves the
  function, \<open>Inr\<close> of the returned value and the effects otherwise.
\<close>

definition send_slack_alert ::
  "'f config \<Rightarrow> post_outcome \<Rightarrow> 'f message \<Rightarrow> string \<Rightarrow> exn + (bool \<times> 'f effect list)" where
  "send_slack_alert cfg outcome message alert_type =
     (if SLACK_WEBHOOK_URL cfg = [] then Inr (False, [Print (No_webhook message)])
      else
        (case try_post outcome alert_type of
           Inr (ok, effs) \<Rightarrow>
             Inr (ok, Post (SLACK_WEBHOOK_URL cfg) (emoji_for alert_type) message # effs)
         | Inl e \<Rightarrow>
             Inr (False, [Post (SLACK_WEBHOOK_URL cfg) (emoji_for alert_type) message,
                          Print (Alert_error e)])))"

text \<open>An alert fired when the notifier was called: it then printed or posted the message.\<close>

fun is_alert :: "'f effect \<Rightarrow> bool" where
  "is_alert (Print (No_webhook m)) = True"
| "is_alert (Post url e m) = True"
| "is_alert _ = False"

definition alert_fired :: "'f effect list \<Rightarrow> bool" where
  "alert_fired effs = list_ex is_alert effs"

subsection \<open>The failover detector\<close>

text \<open>\<^verbatim>\<open>int(x)\<close> for a float: truncation towards zero.\<close>

definition py_trunc :: "real \<Rightarrow> int" where
  "py_trunc x = (if 0 \<le> x then \<lfloor>x\<rfloor> else \<lceil>x\<rceil>)"

text \<open>
  \<^verbatim>\<open>check_failover(pool)\<close>; \<open>current_time\<close> is what the clock gives if it is read,
  \<open>outcome\<close> what the POST does if it is made.
\<close>

definition check_failover ::
  "'f config \<Rightarrow> real \<Rightarrow> post_outcome \<Rightarrow> string \<Rightarrow> state \<Rightarrow> exn + (state \<times> 'f effect list)" where
  "check_failover cfg current_time outcome p st =
     (case last_pool st of
        None \<Rightarrow> Inr (st\<lparr>last_pool := Some p\<rparr>, [Print (Initial_pool p)])
      | Some prev \<Rightarrow>
          if p \<noteq> prev then
            if current_time - last_failover_alert st < real_of_int (ALERT_COOLDOWN_SEC cfg)
            then Inr (st\<lparr>last_pool := Some p\<rparr>,
                      [Print (In_cooldown (py_trunc (current_time - last_failover_alert st)))])
            else
              (case send_slack_alert cfg outcome (Failover_detected prev p) ''failover'' of
                 Inl e \<Rightarrow> Inl e
               | Inr (ok, effs) \<Rightarrow>
                   Inr (st\<lparr>last_failover_alert := current_time, last_pool := Some p\<rparr>,
                        effs @ [Print (Failover_line prev p)]))
          else Inr (st, []))"

subsection \<open>The error-rate window\<close>

text \<open>
  \<^verbatim>\<open>deque.append\<close> on a deque with \<^verbatim>\<open>maxlen\<close>: the element is added at the right, and
  when the deque is then longer than \<^verbatim>\<open>maxlen\<close> the leftmost element is dropped.
\<close>

definition deque_append :: "nat \<Rightarrow> 'a list \<Rightarrow> 'a \<Rightarrow> 'a list" where
  "deque_append maxlen xs x =
     (if maxlen < length (xs @ [x]) then tl (xs @ [x]) else xs @ [x])"

text \<open>Lines 222 and 223 of the loop: a status is recorded when it is positive.\<close>

definition track_request :: "'f config \<Rightarrow> int \<Rightarrow> state \<Rightarrow> state" where
  "track_request cfg status st =
     (if 0 < status
      then st\<lparr>request_window := deque_append (WINDOW_SIZE cfg) (request_window st) status\<rparr>
      else st)"

text \<open>
  Lines 128 to 132 of \<^verbatim>\<open>check_error_rate\<close>: no rate below ten entries, else the
  number of entries from 500 on, divided by the number of entries, times 100.
\<close>

definition error_count :: "int list \<Rightarrow> int" where
  "error_count w = sum_list (map (\<lambda>status. 1) (filter (\<lambda>status. 500 \<le> status) w))"

definition error_rate :: "'f float_ops \<Rightarrow> int list \<Rightarrow> 'f option" where
  "error_rate ops w =
     (if length w < 10 then None
      else Some (times_int ops (truediv ops (error_count w) (int (length w))) 100))"

definition check_error_rate ::
  "'f float_ops \<Rightarrow> 'f config \<Rightarrow> real \<Rightarrow> post_outcome \<Rightarrow> state \<Rightarrow> exn + (state \<times> 'f effect list)" where
  "check_error_rate ops cfg current_time outcome st =
     (case error_rate ops (request_window st) of
        None \<Rightarrow> Inr (st, [])
      | Some rate \<Rightarrow>
          if greater ops rate (ERROR_RATE_THRESHOLD cfg) then
            if current_time - last_error_alert st < real_of_int (ALERT_COOLDOWN_SEC cfg)
            then Inr (st, [])
            else
              (case send_slack_alert cfg outcome
                      (High_error_rate rate (ERROR_RATE_THRESHOLD cfg)
                         (error_count (request_window st)) (length (request_window st))
                         (WINDOW_SIZE cfg))
                      ''error'' of
                 Inl e \<Rightarrow> Inl e
               | Inr (ok, effs) \<Rightarrow>
                   Inr (st\<lparr>last_error_alert := current_time\<rparr>,
                        effs @ [Print (Error_rate_line rate (error_count (request_window st))
                                         (length (request_window st)))]))
          else Inr (st, []))"

subsection \<open>The loop over the lines\<close>

text \<open>
  What the environment supplies while one line is handled: a clock reading and a POST
  outcome for the failover check, and the same for the error-rate check.
\<close>

record env =
  failover_clock :: real
  failover_post :: post_outcome
  error_clock :: real
  error_post :: post_outcome

text \<open>The body of the loop of \<^verbatim>\<open>tail_log_file\<close> for one line read.\<close>

definition process_line ::
  "'f float_ops \<Rightarrow> 'f config \<Rightarrow> env \<Rightarrow> string \<Rightarrow> state \<Rightarrow> exn + (state \<times> 'f effect list)" where
  "process_line ops cfg ev raw st =
     (if raw = [] then Inr (st, [])
      else if strip raw = [] then Inr (st, [])
      else
        (case parse_log_line (strip raw) of
           None \<Rightarrow> Inr (st, [])
         | Some data \<Rightarrow>
             (case (if pool data \<noteq> [] \<and> pool data \<noteq> ''unknown''
                    then check_failover cfg (failover_clock ev) (failover_post ev) (pool data)
                           (track_request cfg (upstream_status data) st)
                    else Inr (track_request cfg (upstream_status data) st, [])) of
                Inl e \<Rightarrow> Inl e
              | Inr (st1, effs1) \<Rightarrow>
                  (case check_error_rate ops cfg (error_clock ev) (error_post ev) st1 of
                     Inl e \<Rightarrow> Inl e
                   | Inr (st2, effs2) \<Rightarrow> Inr (st2, effs1 @ effs2)))))"

text \<open>The loop: the lines in order, each with its environment; an exception ends it.\<close>

fun process_lines ::
  "'f float_ops \<Rightarrow> 'f config \<Rightarrow> (env \<times> string) list \<Rightarrow> state \<Rightarrow> exn + (state \<times> 'f effect list)" where
  "process_lines ops cfg [] st = Inr (st, [])"
| "process_lines ops cfg ((ev, raw) # rest) st =
     (case process_line ops cfg ev raw st of
        Inl e \<Rightarrow> Inl e
      | Inr (st1, effs1) \<Rightarrow>
          (case process_lines ops cfg rest st1 of
             Inl e \<Rightarrow> Inl e
           | Inr (st2, effs2) \<Rightarrow> Inr (st2, effs1 @ effs2)))"

subsection \<open>Double-precision arithmetic\<close>

text \<open>
  The floats of \<^verbatim>\<open>check_error_rate\<close> as the interpreter computes them: IEEE 754
  double precision with rounding to nearest, ties to even. \<open>Finite m e\<close> is the number
  \<open>m * 2 ^ e\<close>; every result below is \<open>0\<close> or has \<open>2 ^ 52 \<le> \<bar>m\<bar> < 2 ^ 53\<close>. The
  exponent is not bounded: overflow, subnormal numbers, infinities and NaN are left
  out. The quotient of a count by a window length and its product with 100 are far
  inside the range of the normal doubles.
\<close>

datatype double = Finite int int

definition double_value :: "double \<Rightarrow> real" where
  "double_value x = (case x of Finite m e \<Rightarrow> real_of_int m * 2 powi e)"

text \<open>
  Rounding the positive number \<open>p / q * 2 ^ e\<close> to 53 significant bits: the
  numerator is doubled until the quotient is at least \<open>2 ^ 52\<close>, the denominator is
  doubled until the quotient is below \<open>2 ^ 53\<close>, and the quotient is rounded to the
  nearest integer, to the even one in a tie.
\<close>

function scale_up :: "int \<Rightarrow> int \<Rightarrow> int \<Rightarrow> int \<times> int" where
  "scale_up p q e =
     (if 0 < p \<and> p < 2 ^ 52 * q then scale_up (2 * p) q (e - 1) else (p, e))"
  by pat_completeness auto
termination
  by (relation "measure (\<lambda>(p, q, e). nat (2 ^ 52 * q - p))") auto

function scale_down :: "int \<Rightarrow> int \<Rightarrow> int \<Rightarrow> int \<times> int" where
  "scale_down p q e =
     (if 0 < q \<and> 2 ^ 53 * q \<le> p then scale_down p (2 * q) (e + 1) else (q, e))"
  by pat_completeness auto
termination
  by (relation "measure (\<lambda>(p, q, e). nat (p - 2 ^ 53 * q + 1))") auto

declare scale_up.simps [simp del]
declare scale_down.simps [simp del]

definition round_half_even :: "int \<Rightarrow> int \<Rightarrow> int" where
  "round_half_even p q =
     (let k = p div q; r = p mod q
      in if 2 * r < q then k
         else if q < 2 * r then k + 1
         else if even k then k else k + 1)"

definition round_pos :: "int \<Rightarrow> int \<Rightarrow> int \<Rightarrow> double" where
  "round_pos p q e =
     (let (p1, e1) = scale_up p q e;
          (q2, e2) = scale_down p1 q e1;
          m = round_half_even p1 q2
      in if m = 2 ^ 53 then Finite (2 ^ 52) (e2 + 1) else Finite m e2)"

text \<open>The same for any sign; \<open>q\<close> is positive.\<close>

definition round_scaled :: "int \<Rightarrow> int \<Rightarrow> int \<Rightarrow> double" where
  "round_scaled p q e =
     (if p = 0 then Finite 0 0
      else if 0 < p then round_pos p q e
      else (case round_pos (- p) q e of Finite m e' \<Rightarrow> Finite (- m) e'))"

text \<open>
  \<^verbatim>\<open>a / b\<close> for two integers: the correctly rounded quotient. (For \<open>b = 0\<close> the
  interpreter raises \<^verbatim>\<open>ZeroDivisionError\<close>; \<^verbatim>\<open>check_error_rate\<close> divides by a length
  of at least ten.)
\<close>

definition double_truediv :: "int \<Rightarrow> int \<Rightarrow> double" where
  "double_truediv a b =
     (if 0 < b then round_scaled a b 0
      else if b < 0 then round_scaled (- a) (- b) 0
      else Finite 0 0)"

text \<open>
  \<^verbatim>\<open>x * n\<close> for a float and an integer: the integer is converted to a float, and the
  product of the two floats is rounded. \<^verbatim>\<open>x > y\<close> compares the two numbers.
\<close>

definition double_of_int :: "int \<Rightarrow> double" where
  "double_of_int n = round_scaled n 1 0"

definition double_mul :: "double \<Rightarrow> double \<Rightarrow> double" where
  "double_mul x y =
     (case x of Finite m1 e1 \<Rightarrow> (case y of Finite m2 e2 \<Rightarrow> round_scaled (m1 * m2) 1 (e1 + e2)))"

definition double_greater :: "double \<Rightarrow> double \<Rightarrow> bool" where
  "double_greater x y =
     (case x of Finite m1 e1 \<Rightarrow> (case y of Finite m2 e2 \<Rightarrow>
        if e2 \<le> e1 then m2 < m1 * 2 ^ nat (e1 - e2) else m2 * 2 ^ nat (e2 - e1) < m1))"

definition double_ops :: "double float_ops" where
  "double_ops =
     \<lparr> truediv = double_truediv,
       times_int = (\<lambda>x n. double_mul x (double_of_int n)),
       greater = double_greater \<rparr>"

subsection \<open>Notions used in the statements\<close>

text \<open>
  The text \<^verbatim>\<open>pool="p" release="r" upstream_status="s" upstream_addr="a"\<close> for four
  values: what \<^verbatim>\<open>LOG_PATTERN\<close> spells when its groups are filled in.
\<close>

definition field_text :: "string \<Rightarrow> string \<Rightarrow> string \<Rightarrow> string \<Rightarrow> string" where
  "field_text p r s a =
     lit_pool @ p @ lit_release @ r @ lit_upstream_status @ s @ lit_upstream_addr @ a @ lit_end"

text \<open>
  The log line grammar as the specification words it: the line contains, somewhere,
  the substring \<^verbatim>\<open>key="<value>"\<close>, for each of the four keys, in any order.
\<close>

definition field_at :: "string \<Rightarrow> string \<Rightarrow> bool" where
  "field_at key s =
     (case match_literal (key @ [CHR ''='', dq]) s of
        None \<Rightarrow> False
      | Some r \<Rightarrow> snd (match_group r) \<noteq> [])"

fun contains_field :: "string \<Rightarrow> string \<Rightarrow> bool" where
  "contains_field key [] = False"
| "contains_field key (c # cs) = (field_at key (c # cs) \<or> contains_field key cs)"

definition spec_field_set :: "string \<Rightarrow> bool" where
  "spec_field_set line =
     (contains_field ''pool'' line \<and> contains_field ''release'' line \<and>
      contains_field ''upstream_status'' line \<and> contains_field ''upstream_addr'' line)"

text \<open>A comma-separated list of codes, as nginx writes the attempts of one request.\<close>

fun join_commas :: "string list \<Rightarrow> string" where
  "join_commas [] = []"
| "join_commas [c] = c"
| "join_commas (c # d # cs) = c @ CHR '','' # join_commas (d # cs)"

text \<open>A response in the 200 range, as the specification words the success of a POST.\<close>

definition in_200_range :: "int \<Rightarrow> bool" where
  "in_200_range code = (200 \<le> code \<and> code < 300)"

text \<open>
  The configuration when no environment variable is set (lines 16 to 19); it serves
  to run the functions on concrete inputs.
\<close>

definition default_config :: "double config" where
  "default_config =
     \<lparr> SLACK_WEBHOOK_URL = [], ERROR_RATE_THRESHOLD = double_of_int 2, WINDOW_SIZE = 200,
       ALERT_COOLDOWN_SEC = 300 \<rparr>"

text \<open>
  What a sequence of lines holds for the detector and for the window: the pools of
  the lines that parse and have a known pool, and the positive statuses of the lines
  that parse, both in the order of the lines.
\<close>

definition known_pool :: "string \<Rightarrow> string option" where
  "known_pool raw =
     (case parse_log_line (strip raw) of
        None \<Rightarrow> None
      | Some data \<Rightarrow> if pool data \<noteq> [] \<and> pool data \<noteq> ''unknown'' then Some (pool data) else None)"

definition known_pools :: "string list \<Rightarrow> string list" where
  "known_pools raws = List.map_filter known_pool raws"

definition admitted_status :: "string \<Rightarrow> int option" where
  "admitted_status raw =
     (case parse_log_line (strip raw) of
        None \<Rightarrow> None
      | Some data \<Rightarrow> if 0 < upstream_status data then Some (upstream_status data) else None)"

definition admitted_statuses :: "string list \<Rightarrow> int list" where
  "admitted_statuses raws = List.map_filter admitted_status raws"

section \<open>Properties\<close>

subsection \<open>The log pattern and the line parser\<close>

lemma match_literal_iff: "match_literal lit s = Some r \<longleftrightarrow> s = lit @ r"
  by (induction lit s rule: match_literal.induct) auto

lemma match_group_append:
  "dq \<notin> set v \<Longrightarrow> match_group (v @ dq # r) = (v, dq # r)"
  by (induction v) (auto simp: match_group_def)

lemma match_group_split:
  assumes "snd (match_group s) = dq # r"
  shows "s = fst (match_group s) @ dq # r" and "dq \<notin> set (fst (match_group s))"
proof -
  have "s = takeWhile (\<lambda>c. c \<noteq> dq) s @ dropWhile (\<lambda>c. c \<noteq> dq) s" by simp
  with assms show "s = fst (match_group s) @ dq # r" by (simp add: match_group_def)
  show "dq \<notin> set (fst (match_group s))"
    by (auto simp: match_group_def dest: set_takeWhileD)
qed

lemma lits_dq:
  "lit_release = dq # tl lit_release"
  "lit_upstream_status = dq # tl lit_upstream_status"
  "lit_upstream_addr = dq # tl lit_upstream_addr"
  "lit_end = [dq]"
  by (simp_all add: lit_release_def lit_upstream_status_def lit_upstream_addr_def lit_end_def dq_def)

lemma group_then_literal:
  assumes "lit = dq # l" and "match_literal lit (snd (match_group s)) = Some r"
  shows "s = fst (match_group s) @ lit @ r \<and> dq \<notin> set (fst (match_group s))"
proof -
  from assms have "snd (match_group s) = dq # (l @ r)" by (simp add: match_literal_iff)
  from match_group_split [OF this] assms(1) show ?thesis by simp
qed

lemma literal_after_group:
  assumes "lit = dq # l" and "dq \<notin> set v"
  shows "match_group (v @ lit @ r) = (v, lit @ r)"
  using assms match_group_append [of v "l @ r"] by simp

lemma match_Some_D:
  assumes "LOG_PATTERN_match s = Some g"
  shows "\<exists>post. s = field_text (group_pool g) (group_release g) (group_upstream_status g)
                      (group_upstream_addr g) @ post
          \<and> dq \<notin> set (group_pool g) \<and> dq \<notin> set (group_release g)
          \<and> dq \<notin> set (group_upstream_status g) \<and> dq \<notin> set (group_upstream_addr g)"
proof -
  from assms obtain s1 s2 s3 s4 s5 where
    1: "match_literal lit_pool s = Some s1" and
    2: "match_literal lit_release (snd (match_group s1)) = Some s2" and
    3: "match_literal lit_upstream_status (snd (match_group s2)) = Some s3" and
    4: "match_literal lit_upstream_addr (snd (match_group s3)) = Some s4" and
    5: "match_literal lit_end (snd (match_group s4)) = Some s5" and
    g: "g = \<lparr> group_pool = fst (match_group s1), group_release = fst (match_group s2),
             group_upstream_status = fst (match_group s3),
             group_upstream_addr = fst (match_group s4) \<rparr>"
    by (auto simp: LOG_PATTERN_match_def split: option.splits)
  from 1 have a: "s = lit_pool @ s1" by (simp add: match_literal_iff)
  note b = group_then_literal [OF lits_dq(1) 2]
  note c = group_then_literal [OF lits_dq(2) 3]
  note d = group_then_literal [OF lits_dq(3) 4]
  have e: "s4 = fst (match_group s4) @ lit_end @ s5 \<and> dq \<notin> set (fst (match_group s4))"
    using group_then_literal [of lit_end "[]" s4 s5] 5 lits_dq(4) by simp
  have "s = field_text (group_pool g) (group_release g) (group_upstream_status g)
                      (group_upstream_addr g) @ s5"
    unfolding field_text_def g
    apply (simp del: append_assoc)
    apply (subst a, subst b [THEN conjunct1], subst c [THEN conjunct1], subst d [THEN conjunct1], subst e [THEN conjunct1])
    apply simp
    done
  with b c d e g show ?thesis by auto
qed

lemma match_Some_I:
  assumes "dq \<notin> set p" "dq \<notin> set r" "dq \<notin> set st" "dq \<notin> set a"
  shows "LOG_PATTERN_match (field_text p r st a @ post) =
           Some \<lparr> group_pool = p, group_release = r, group_upstream_status = st,
                  group_upstream_addr = a \<rparr>"
proof -
  have 1: "match_literal lit_pool (field_text p r st a @ post)
             = Some (p @ lit_release @ r @ lit_upstream_status @ st @ lit_upstream_addr @ a @ lit_end @ post)"
    by (simp add: match_literal_iff field_text_def)
  have 2: "match_group (p @ lit_release @ r @ lit_upstream_status @ st @ lit_upstream_addr @ a @ lit_end @ post)
             = (p, lit_release @ r @ lit_upstream_status @ st @ lit_upstream_addr @ a @ lit_end @ post)"
    by (rule literal_after_group [OF lits_dq(1) assms(1)])
  have 3: "match_group (r @ lit_upstream_status @ st @ lit_upstream_addr @ a @ lit_end @ post)
             = (r, lit_upstream_status @ st @ lit_upstream_addr @ a @ lit_end @ post)"
    by (rule literal_after_group [OF lits_dq(2) assms(2)])
  have 4: "match_group (st @ lit_upstream_addr @ a @ lit_end @ post)
             = (st, lit_upstream_addr @ a @ lit_end @ post)"
    by (rule literal_after_group [OF lits_dq(3) assms(3)])
  have 5: "match_group (a @ lit_end @ post) = (a, lit_end @ post)"
    using literal_after_group [of lit_end "[]" a post] lits_dq(4) assms(4) by simp
  have lit: "\<And>l x. match_literal l (l @ x) = Some x" by (simp add: match_literal_iff)
  show ?thesis
    unfolding LOG_PATTERN_match_def by (simp add: 1 2 3 4 5 lit)
qed

lemma search_Some_pre:
  "LOG_PATTERN_search s = Some g \<Longrightarrow> \<exists>pre rest. s = pre @ rest \<and> LOG_PATTERN_match rest = Some g"
proof (induction s)
  case Nil
  then show ?case by simp
next
  case (Cons c cs)
  show ?case
  proof (cases "LOG_PATTERN_match (c # cs)")
    case None
    with Cons.prems have "LOG_PATTERN_search cs = Some g" by simp
    from Cons.IH [OF this] obtain pre rest where
      "cs = pre @ rest" "LOG_PATTERN_match rest = Some g" by blast
    then have "c # cs = (c # pre) @ rest \<and> LOG_PATTERN_match rest = Some g" by simp
    then show ?thesis by blast
  next
    case (Some g')
    with Cons.prems have "c # cs = [] @ (c # cs) \<and> LOG_PATTERN_match (c # cs) = Some g" by simp
    then show ?thesis by blast
  qed
qed

lemma search_append_I:
  "LOG_PATTERN_match rest \<noteq> None \<Longrightarrow> LOG_PATTERN_search (pre @ rest) \<noteq> None"
proof (induction pre)
  case Nil
  then show ?case by (cases rest) (auto split: option.splits)
next
  case (Cons c pre)
  then show ?case by (auto split: option.splits)
qed


lemma search_Some_iff:
  "LOG_PATTERN_search line \<noteq> None \<longleftrightarrow>
     (\<exists>pre p r s a post. line = pre @ field_text p r s a @ post \<and>
        dq \<notin> set p \<and> dq \<notin> set r \<and> dq \<notin> set s \<and> dq \<notin> set a)"
proof
  assume "LOG_PATTERN_search line \<noteq> None"
  then obtain g where "LOG_PATTERN_search line = Some g" by blast
  from search_Some_pre [OF this] obtain pre rest where
    l: "line = pre @ rest" and m: "LOG_PATTERN_match rest = Some g" by blast
  from match_Some_D [OF m] l show "\<exists>pre p r s a post. line = pre @ field_text p r s a @ post \<and>
        dq \<notin> set p \<and> dq \<notin> set r \<and> dq \<notin> set s \<and> dq \<notin> set a"
    by blast
next
  assume "\<exists>pre p r s a post. line = pre @ field_text p r s a @ post \<and>
        dq \<notin> set p \<and> dq \<notin> set r \<and> dq \<notin> set s \<and> dq \<notin> set a"
  then obtain pre p r s a post where l: "line = pre @ field_text p r s a @ post"
    and q: "dq \<notin> set p" "dq \<notin> set r" "dq \<notin> set s" "dq \<notin> set a" by blast
  from match_Some_I [OF q] have "LOG_PATTERN_match (field_text p r s a @ post) \<noteq> None" by simp
  from search_append_I [OF this] l show "LOG_PATTERN_search line \<noteq> None" by simp
qed

lemmas parser_defs = parse_log_line_def LOG_PATTERN_match_def lit_pool_def lit_release_def
  lit_upstream_status_def lit_upstream_addr_def lit_end_def match_group_def dq_def

text \<open>
  Claim C1, as the code has it: \<^verbatim>\<open>parse_log_line\<close> returns a record exactly for the
  lines that contain, as one piece of text, the four fields in the order pool, release,
  upstream_status, upstream_addr, one space between two fields and no double quote
  inside a value; what stands before and after that text is arbitrary. For every other
  line it returns \<open>None\<close>.
\<close>

theorem parse_log_line_iff:
  "parse_log_line line \<noteq> None \<longleftrightarrow>
     (\<exists>pre p r s a post. line = pre @ field_text p r s a @ post \<and>
        dq \<notin> set p \<and> dq \<notin> set r \<and> dq \<notin> set s \<and> dq \<notin> set a)"
proof -
  have "parse_log_line line \<noteq> None \<longleftrightarrow> LOG_PATTERN_search line \<noteq> None"
    by (simp add: parse_log_line_def split: option.splits)
  then show ?thesis by (simp only: search_Some_iff)
qed

theorem parse_log_line_iff_witness:
  \<open>parse_log_line ''GET / pool="blue" release="v1" upstream_status="200" upstream_addr="10.0.0.1:80" rt=0.1'' \<noteq> None\<close>
proof -
  have \<open>''GET / pool="blue" release="v1" upstream_status="200" upstream_addr="10.0.0.1:80" rt=0.1''
          = ''GET / '' @ field_text ''blue'' ''v1'' ''200'' ''10.0.0.1:80'' @ '' rt=0.1''
        \<and> dq \<notin> set ''blue'' \<and> dq \<notin> set ''v1'' \<and> dq \<notin> set ''200'' \<and> dq \<notin> set ''10.0.0.1:80''\<close>
    by (simp add: field_text_def lit_pool_def lit_release_def
        lit_upstream_status_def lit_upstream_addr_def lit_end_def dq_def)
  then have \<open>\<exists>pre p r s a post.
      ''GET / pool="blue" release="v1" upstream_status="200" upstream_addr="10.0.0.1:80" rt=0.1''
         = pre @ field_text p r s a @ post \<and>
        dq \<notin> set p \<and> dq \<notin> set r \<and> dq \<notin> set s \<and> dq \<notin> set a\<close>
    by blast
  then show ?thesis by (simp only: parse_log_line_iff)
qed

text \<open>
  Claim C1 as worded asks for a record whenever the four fields occur, in any order.
  With \<^verbatim>\<open>release\<close> before \<^verbatim>\<open>pool\<close> the line has the four fields and is not parsed.
\<close>

theorem reordered_fields_counterexample:
  \<open>spec_field_set ''release="v1" pool="blue" upstream_status="200" upstream_addr="10.0.0.1:80"''
   \<and> parse_log_line ''release="v1" pool="blue" upstream_status="200" upstream_addr="10.0.0.1:80"'' = None\<close>
  by (simp add: spec_field_set_def field_at_def parser_defs)

lemma split_on_no_sep: "sep \<notin> set c \<Longrightarrow> split_on sep c = [c]"
  by (induction c) auto

lemma split_on_append:
  "sep \<notin> set c \<Longrightarrow> split_on sep (c @ sep # rest) = c # split_on sep rest"
  by (induction c) auto

lemma split_on_join:
  "codes \<noteq> [] \<Longrightarrow> \<forall>c \<in> set codes. CHR '','' \<notin> set c \<Longrightarrow>
     split_on CHR '','' (join_commas codes) = codes"
proof (induction codes rule: join_commas.induct)
  case 1
  then show ?case by simp
next
  case (2 c)
  then show ?case by (simp add: split_on_no_sep)
next
  case (3 c d cs)
  then have "split_on CHR '','' (join_commas (d # cs)) = d # cs" by simp
  moreover from 3 have "CHR '','' \<notin> set c" by simp
  ultimately show ?case by (simp add: split_on_append)
qed

lemma py_int_empty: "py_int (strip []) = None"
  by (simp add: py_int_def strip_def)

lemma py_int_dash: "py_int (strip ''-'') = None"
  by (simp add: py_int_def strip_def is_space_def)

lemma status_code_join:
  assumes "codes \<noteq> []" and "\<forall>c \<in> set codes. CHR '','' \<notin> set c"
  shows "status_code (join_commas codes) =
           (case py_int (strip (last codes)) of Some n \<Rightarrow> n | None \<Rightarrow> 0)"
proof -
  have s: "split_on CHR '','' (join_commas codes) = codes"
    using assms by (rule split_on_join)
  show ?thesis
  proof (cases "join_commas codes = [] \<or> join_commas codes = ''-''")
    case True
    with s have "codes = split_on CHR '','' [] \<or> codes = split_on CHR '','' ''-''"
      by auto
    then have "codes = [[]] \<or> codes = [''-'']" by simp
    then have "py_int (strip (last codes)) = None"
      using py_int_empty py_int_dash by auto
    with True show ?thesis by (auto simp: status_code_def)
  next
    case False
    then show ?thesis by (simp add: status_code_def s)
  qed
qed

lemmas int_defs = status_code_def py_int_def strip_def is_space_def is_digit_def
  digits_value_def digit_val_def

text \<open>
  Claim C9: when the \<^verbatim>\<open>upstream_status\<close> value is a comma-separated list of codes,
  the status of the record is read from the last code alone: it is the integer that
  \<^verbatim>\<open>int\<close> reads from it, and \<open>0\<close> when \<^verbatim>\<open>int\<close> rejects it. For \<^verbatim>\<open>502,502,200\<close>
  the status is \<open>200\<close>.
\<close>

theorem upstream_status_last_element:
  assumes "LOG_PATTERN_search line = Some g"
    and "group_upstream_status g = join_commas codes"
    and "codes \<noteq> []" and "\<forall>c \<in> set codes. CHR '','' \<notin> set c"
  shows "\<exists>r. parse_log_line line = Some r \<and>
           upstream_status r = (case py_int (strip (last codes)) of Some n \<Rightarrow> n | None \<Rightarrow> 0)"
proof -
  from assms(1) have "parse_log_line line \<noteq> None \<and>
      upstream_status (the (parse_log_line line)) = status_code (group_upstream_status g)"
    by (simp add: parse_log_line_def)
  moreover have "status_code (group_upstream_status g) =
      (case py_int (strip (last codes)) of Some n \<Rightarrow> n | None \<Rightarrow> 0)"
    unfolding assms(2) using assms(3,4) by (rule status_code_join)
  ultimately show ?thesis by auto
qed

theorem upstream_status_last_element_witness:
  \<open>(\<exists>r. parse_log_line ''pool="blue" release="v1" upstream_status="502,502,200" upstream_addr="10.0.0.1:80"'' = Some r
        \<and> upstream_status r = 200)
   \<and> (\<exists>r. parse_log_line ''pool="blue" release="v1" upstream_status="502,abc" upstream_addr="10.0.0.1:80"'' = Some r
        \<and> upstream_status r = 0)\<close>
proof -
  have a: \<open>LOG_PATTERN_search ''pool="blue" release="v1" upstream_status="502,502,200" upstream_addr="10.0.0.1:80"''
      = Some \<lparr> group_pool = ''blue'', group_release = ''v1'',
                group_upstream_status = ''502,502,200'', group_upstream_addr = ''10.0.0.1:80'' \<rparr>\<close>
    by (simp add: parser_defs)
  have b: \<open>LOG_PATTERN_search ''pool="blue" release="v1" upstream_status="502,abc" upstream_addr="10.0.0.1:80"''
      = Some \<lparr> group_pool = ''blue'', group_release = ''v1'',
                group_upstream_status = ''502,abc'', group_upstream_addr = ''10.0.0.1:80'' \<rparr>\<close>
    by (simp add: parser_defs)
  show ?thesis
    using upstream_status_last_element [OF a, of "[''502'', ''502'', ''200'']"]
      upstream_status_last_element [OF b, of "[''502'', ''abc'']"]
    by (simp add: int_defs)
qed

text \<open>
  Claim C10: the \<^verbatim>\<open>upstream_addr\<close> of a record is the text matched by the fourth
  group, unchanged; the value \<^verbatim>\<open>-\<close> stays \<^verbatim>\<open>-\<close>, whereas \<^verbatim>\<open>pool\<close> and
  \<^verbatim>\<open>release\<close> turn \<^verbatim>\<open>-\<close> into \<^verbatim>\<open>unknown\<close>.
\<close>

theorem upstream_addr_verbatim:
  assumes "LOG_PATTERN_search line = Some g"
  shows "\<exists>r pre post. parse_log_line line = Some r
      \<and> line = pre @ field_text (group_pool g) (group_release g) (group_upstream_status g)
                       (group_upstream_addr g) @ post
      \<and> upstream_addr r = group_upstream_addr g
      \<and> (group_upstream_addr g = ''-'' \<longrightarrow> upstream_addr r = ''-'')
      \<and> pool r = (if group_pool g = ''-'' then ''unknown'' else group_pool g)
      \<and> release r = (if group_release g = ''-'' then ''unknown'' else group_release g)"
proof -
  from search_Some_pre [OF assms] obtain pre rest where
    l: "line = pre @ rest" and m: "LOG_PATTERN_match rest = Some g" by blast
  from match_Some_D [OF m] obtain post where
    "rest = field_text (group_pool g) (group_release g) (group_upstream_status g)
                       (group_upstream_addr g) @ post" by blast
  with l have "line = pre @ field_text (group_pool g) (group_release g) (group_upstream_status g)
                       (group_upstream_addr g) @ post" by simp
  with assms show ?thesis by (auto simp: parse_log_line_def)
qed

theorem upstream_addr_verbatim_witness:
  \<open>\<exists>r. parse_log_line ''pool="-" release="-" upstream_status="-" upstream_addr="-"'' = Some r
      \<and> upstream_addr r = ''-'' \<and> pool r = ''unknown'' \<and> release r = ''unknown''\<close>
proof -
  have a: \<open>LOG_PATTERN_search ''pool="-" release="-" upstream_status="-" upstream_addr="-"''
      = Some \<lparr> group_pool = ''-'', group_release = ''-'',
                group_upstream_status = ''-'', group_upstream_addr = ''-'' \<rparr>\<close>
    by (simp add: parser_defs)
  show ?thesis
    using upstream_addr_verbatim [OF a] by auto
qed

subsection \<open>The notifier\<close>

lemma send_slack_alert_total:
  "\<exists>ok effs. send_slack_alert cfg outcome m t = Inr (ok, effs) \<and> alert_fired effs"
  by (cases outcome)
     (auto simp: send_slack_alert_def try_post_def alert_fired_def)

lemma send_slack_alert_result:
  "\<exists>effs. send_slack_alert cfg outcome m t =
      Inr (SLACK_WEBHOOK_URL cfg \<noteq> [] \<and> (\<exists>text. outcome = Response 200 text), effs)"
  by (cases outcome)
     (auto simp: send_slack_alert_def try_post_def)

text \<open>
  Claim C6, as the code has it: \<^verbatim>\<open>send_slack_alert\<close> returns \<open>True\<close> exactly when
  a webhook is configured and the POST returns a response with the status code 200;
  for every other response, for an exception and without a webhook it returns \<open>False\<close>.
\<close>

theorem send_slack_alert_true_iff:
  "\<exists>ok effs. send_slack_alert cfg outcome m t = Inr (ok, effs) \<and>
     (ok \<longleftrightarrow> SLACK_WEBHOOK_URL cfg \<noteq> [] \<and> (\<exists>text. outcome = Response 200 text))"
  using send_slack_alert_result [of cfg outcome m t] by blast

theorem send_slack_alert_true_iff_witness:
  "send_slack_alert (default_config\<lparr>SLACK_WEBHOOK_URL := ''https://hooks.example/T1''\<rparr>)
      (Response 200 ''ok'') (Failover_detected ''blue'' ''green'') ''failover''
    = Inr (True, [Post ''https://hooks.example/T1'' Emoji_failover (Failover_detected ''blue'' ''green''),
                  Print (Alert_sent ''failover'')])"
  using send_slack_alert_true_iff [of "default_config\<lparr>SLACK_WEBHOOK_URL := ''https://hooks.example/T1''\<rparr>"
      "Response 200 ''ok''" "Failover_detected ''blue'' ''green''" "''failover''"]
  by (simp add: send_slack_alert_def try_post_def default_config_def emoji_for_def)

text \<open>
  Claim C6 as worded counts every response in the 200 range as a success. A response
  with the status code 204 is in that range, and the function returns \<open>False\<close>.
\<close>

theorem status_204_counterexample:
  "in_200_range 204 \<and>
   send_slack_alert (default_config\<lparr>SLACK_WEBHOOK_URL := ''https://hooks.example/T1''\<rparr>)
      (Response 204 []) (Failover_detected ''blue'' ''green'') ''failover''
    = Inr (False, [Post ''https://hooks.example/T1'' Emoji_failover (Failover_detected ''blue'' ''green''),
                   Print (Alert_failed_status 204), Print (Alert_failed_response [])])"
  by (simp add: in_200_range_def send_slack_alert_def try_post_def default_config_def emoji_for_def)

text \<open>
  Claim C8: no exception leaves \<^verbatim>\<open>send_slack_alert\<close>. Without a webhook it prints the
  alert and returns \<open>False\<close>. With a webhook, an exception of the POST (a timeout, a
  connection error) is caught, printed and answered with \<open>False\<close>, and so is a response
  whose status code is not 200.
\<close>

theorem send_slack_alert_never_raises:
  "\<exists>ok effs. send_slack_alert cfg outcome m t = Inr (ok, effs) \<and>
     (SLACK_WEBHOOK_URL cfg = [] \<longrightarrow> \<not> ok \<and> effs = [Print (No_webhook m)]) \<and>
     (SLACK_WEBHOOK_URL cfg \<noteq> [] \<longrightarrow>
        (\<forall>e. outcome = Raised e \<longrightarrow> \<not> ok \<and> Print (Alert_error e) \<in> set effs) \<and>
        (\<forall>code text. outcome = Response code text \<longrightarrow> code \<noteq> 200 \<longrightarrow>
            \<not> ok \<and> Print (Alert_failed_status code) \<in> set effs))"
proof (cases "SLACK_WEBHOOK_URL cfg = []")
  case True
  then show ?thesis by (auto simp: send_slack_alert_def)
next
  case False
  show ?thesis
  proof (cases outcome)
    case (Response code body)
    with False show ?thesis by (auto simp: send_slack_alert_def try_post_def)
  next
    case (Raised e)
    with False show ?thesis by (auto simp: send_slack_alert_def try_post_def)
  qed
qed

theorem send_slack_alert_never_raises_witness:
  "(\<exists>effs. send_slack_alert default_config (Raised ConnectionError)
              (Failover_detected ''blue'' ''green'') ''failover'' = Inr (False, effs)
           \<and> effs = [Print (No_webhook (Failover_detected ''blue'' ''green''))])
   \<and> (\<exists>effs. send_slack_alert (default_config\<lparr>SLACK_WEBHOOK_URL := ''https://hooks.example/T1''\<rparr>)
              (Raised Timeout) (Failover_detected ''blue'' ''green'') ''failover'' = Inr (False, effs)
           \<and> Print (Alert_error Timeout) \<in> set effs)
   \<and> (\<exists>effs. send_slack_alert (default_config\<lparr>SLACK_WEBHOOK_URL := ''https://hooks.example/T1''\<rparr>)
              (Response 503 ''busy'') (Failover_detected ''blue'' ''green'') ''failover'' = Inr (False, effs)
           \<and> Print (Alert_failed_status 503) \<in> set effs)"
  using
    send_slack_alert_never_raises [of default_config "Raised ConnectionError"
      "Failover_detected ''blue'' ''green''" "''failover''"]
    send_slack_alert_never_raises [of "default_config\<lparr>SLACK_WEBHOOK_URL := ''https://hooks.example/T1''\<rparr>"
      "Raised Timeout" "Failover_detected ''blue'' ''green''" "''failover''"]
    send_slack_alert_never_raises [of "default_config\<lparr>SLACK_WEBHOOK_URL := ''https://hooks.example/T1''\<rparr>"
      "Response 503 ''busy''" "Failover_detected ''blue'' ''green''" "''failover''"]
  by (auto simp: default_config_def)

subsection \<open>Double-precision arithmetic\<close>

lemmas double_defs = round_pos_def round_scaled_def double_truediv_def double_of_int_def
  double_mul_def double_greater_def double_ops_def round_half_even_def
  scale_up.simps scale_down.simps


lemma scale_up_props:
  assumes "0 < q" and "0 < p" and "scale_up p q e = (p1, e1)"
  shows "2 ^ 52 * q \<le> p1 \<and> 0 < p1
         \<and> real_of_int p1 * 2 powi e1 = real_of_int p * 2 powi e
         \<and> (p1 < 2 ^ 53 * q \<or> p1 = p)"
  using assms
proof (induction p q e rule: scale_up.induct)
  case (1 p q e)
  show ?case
  proof (cases "0 < p \<and> p < 2 ^ 52 * q")
    case True
    with "1.prems" have r: "scale_up (2 * p) q (e - 1) = (p1, e1)"
      by (simp add: scale_up.simps [of p q e])
    from "1.IH" [OF True "1.prems"(1) _ r] True
    have ih: "2 ^ 52 * q \<le> p1 \<and> 0 < p1
         \<and> real_of_int p1 * 2 powi e1 = real_of_int (2 * p) * 2 powi (e - 1)
         \<and> (p1 < 2 ^ 53 * q \<or> p1 = 2 * p)"
      by simp
    have "(2::real) powi (e - 1) = 2 powi e / 2"
      by (simp add: power_int_diff)
    then have "real_of_int (2 * p) * 2 powi (e - 1) = real_of_int p * 2 powi e" by simp
    moreover from ih True have "p1 < 2 ^ 53 * q" by auto
    ultimately show ?thesis using ih by simp
  next
    case False
    with "1.prems" have "p1 = p" "e1 = e"
      by (simp_all add: scale_up.simps [of p q e])
    with False "1.prems" show ?thesis by auto
  qed
qed

lemma scale_down_props:
  assumes "0 < q" and "2 ^ 52 * q \<le> p" and "scale_down p q e = (q2, e2)"
  shows "0 < q2 \<and> 2 ^ 52 * q2 \<le> p \<and> p < 2 ^ 53 * q2
         \<and> real_of_int q2 * 2 powi e = real_of_int q * 2 powi e2"
  using assms
proof (induction p q e rule: scale_down.induct)
  case (1 p q e)
  show ?case
  proof (cases "0 < q \<and> 2 ^ 53 * q \<le> p")
    case True
    with "1.prems" have r: "scale_down p (2 * q) (e + 1) = (q2, e2)"
      by (simp add: scale_down.simps [of p q e])
    from True have "0 < 2 * q" "2 ^ 52 * (2 * q) \<le> p" by simp_all
    from "1.IH" [OF True this r]
    have ih: "0 < q2 \<and> 2 ^ 52 * q2 \<le> p \<and> p < 2 ^ 53 * q2
         \<and> real_of_int q2 * 2 powi (e + 1) = real_of_int (2 * q) * 2 powi e2" .
    have "(2::real) powi (e + 1) = 2 powi e * 2"
      by (simp add: power_int_add)
    with ih have "real_of_int q2 * 2 powi e = real_of_int q * 2 powi e2" by simp
    with ih show ?thesis by simp
  next
    case False
    with "1.prems" have "q2 = q" "e2 = e"
      by (simp_all add: scale_down.simps [of p q e])
    with False "1.prems" show ?thesis by auto
  qed
qed

lemma round_half_even_bounds:
  assumes "0 < q"
  shows "\<bar>real_of_int (round_half_even p q) - real_of_int p / real_of_int q\<bar> \<le> 1 / 2"
    and "p div q \<le> round_half_even p q" and "round_half_even p q \<le> p div q + 1"
proof -
  let ?k = "p div q" and ?r = "p mod q"
  have p: "p = ?k * q + ?r" by simp
  have r: "0 \<le> ?r" "?r < q" using assms by simp_all
  have "real_of_int p = real_of_int ?k * real_of_int q + real_of_int ?r"
    by (metis p of_int_add of_int_mult)
  then have d: "real_of_int p / real_of_int q = real_of_int ?k + real_of_int ?r / real_of_int q"
    using assms by (simp add: field_simps)
  have q: "0 < real_of_int q" using assms by simp
  show "p div q \<le> round_half_even p q" "round_half_even p q \<le> p div q + 1"
    by (simp_all add: round_half_even_def Let_def)
  show "\<bar>real_of_int (round_half_even p q) - real_of_int p / real_of_int q\<bar> \<le> 1 / 2"
  proof (cases "2 * ?r < q")
    case True
    then have "2 * real_of_int ?r < real_of_int q" by linarith
    then have "real_of_int ?r / real_of_int q \<le> 1 / 2" using q by (simp add: field_simps)
    moreover have "0 \<le> real_of_int ?r / real_of_int q" using r q by simp
    moreover from True have "round_half_even p q = ?k" by (simp add: round_half_even_def Let_def)
    ultimately show ?thesis using d by simp
  next
    case False
    then have "real_of_int q \<le> 2 * real_of_int ?r" by linarith
    then have h: "1 / 2 \<le> real_of_int ?r / real_of_int q" using q by (simp add: field_simps)
    have "real_of_int ?r \<le> real_of_int q" using r by linarith
    then have l: "real_of_int ?r / real_of_int q \<le> 1" using q by (simp add: field_simps)
    show ?thesis
    proof (cases "q < 2 * ?r")
      case True
      with False have "round_half_even p q = ?k + 1" by (simp add: round_half_even_def Let_def)
      with h l d show ?thesis by simp
    next
      case eq: False
      with False have "2 * ?r = q" by simp
      then have "2 * real_of_int ?r = real_of_int q" by linarith
      then have e: "real_of_int ?r / real_of_int q = 1 / 2" using q by (simp add: field_simps)
      have "round_half_even p q = ?k \<or> round_half_even p q = ?k + 1"
        by (simp add: round_half_even_def Let_def)
      with e d show ?thesis by auto
    qed
  qed
qed


lemma round_pos_bound:
  assumes "0 < p" and "0 < q"
  shows "\<exists>m e'. round_pos p q e = Finite m e' \<and> 0 < m
           \<and> \<bar>real_of_int m * 2 powi e' - real_of_int p / real_of_int q * 2 powi e\<bar>
                \<le> real_of_int p / real_of_int q * 2 powi e / 2 ^ 53"
proof -
  obtain p1 e1 where up: "scale_up p q e = (p1, e1)" by (cases "scale_up p q e")
  from scale_up_props [OF assms(2) assms(1) up]
  have u: "2 ^ 52 * q \<le> p1" "0 < p1"
    "real_of_int p1 * 2 powi e1 = real_of_int p * 2 powi e" by simp_all
  obtain q2 e2 where down: "scale_down p1 q e1 = (q2, e2)" by (cases "scale_down p1 q e1")
  from scale_down_props [OF assms(2) u(1) down]
  have d: "0 < q2" "2 ^ 52 * q2 \<le> p1" "p1 < 2 ^ 53 * q2"
    "real_of_int q2 * 2 powi e1 = real_of_int q * 2 powi e2" by simp_all
  let ?m = "round_half_even p1 q2"
  let ?A = "(2::real) powi e1" and ?B = "(2::real) powi e2" and ?C = "(2::real) powi e"
  let ?y = "real_of_int p1 / real_of_int q2"
  let ?x = "real_of_int p / real_of_int q * ?C"
  have pos: "0 < ?A" "0 < ?B" "0 < ?C" by simp_all
  have rq: "0 < real_of_int q" "0 < real_of_int q2" using assms(2) d(1) by simp_all
  have "?y * ?B * (real_of_int q * ?A) = real_of_int p1 * ?A * (real_of_int q * ?B) / real_of_int q2"
    by simp
  also have "\<dots> = real_of_int p1 * ?A * (real_of_int q2 * ?A) / real_of_int q2"
    by (simp only: d(4))
  also have "\<dots> = real_of_int p1 * ?A * ?A" using rq by simp
  also have "\<dots> = real_of_int p * ?C * ?A" by (simp only: u(3))
  also have "\<dots> = ?x * (real_of_int q * ?A)" using rq by simp
  finally have "?y * ?B * (real_of_int q * ?A) = ?x * (real_of_int q * ?A)" .
  moreover have "real_of_int q * ?A \<noteq> 0" using rq pos by simp
  ultimately have "?y * ?B = ?x" by (rule mult_right_cancel [THEN iffD1, rotated])
  then have x: "?x = ?y * ?B" by (rule sym)
  have "(2 ^ 52 * q2) div q2 \<le> p1 div q2" using d(1,2) by (intro zdiv_mono1) simp_all
  then have k: "2 ^ 52 \<le> p1 div q2" using d(1) by simp
  from round_half_even_bounds [OF d(1), of p1]
  have r: "\<bar>real_of_int ?m - ?y\<bar> \<le> 1 / 2" "p1 div q2 \<le> ?m" by simp_all
  have "(0::int) < 2 ^ 52" by simp
  with k r(2) have m: "0 < ?m" by linarith
  have "2 ^ 52 * real_of_int q2 \<le> real_of_int p1"
    using d(2) by (metis of_int_le_iff of_int_mult of_int_numeral of_int_power)
  then have y: "2 ^ 52 \<le> ?y" using rq by (simp add: field_simps)
  have "real_of_int ?m * ?B - ?x = (real_of_int ?m - ?y) * ?B"
    by (simp only: x left_diff_distrib)
  then have "\<bar>real_of_int ?m * ?B - ?x\<bar> = \<bar>real_of_int ?m - ?y\<bar> * \<bar>?B\<bar>"
    by (simp only: abs_mult)
  also have "\<bar>?B\<bar> = ?B" using pos(2) by (rule abs_of_pos)
  finally have "\<bar>real_of_int ?m * ?B - ?x\<bar> = \<bar>real_of_int ?m - ?y\<bar> * ?B" .
  also have "\<dots> \<le> 1 / 2 * ?B" using r(1) pos by (intro mult_right_mono) simp_all
  also have "\<dots> \<le> ?y * ?B / 2 ^ 53"
  proof -
    have "1 / 2 \<le> ?y / 2 ^ 53" using y by simp
    then have "1 / 2 * ?B \<le> ?y / 2 ^ 53 * ?B" using pos by (intro mult_right_mono) simp_all
    then show ?thesis by simp
  qed
  finally have b: "\<bar>real_of_int ?m * ?B - ?x\<bar> \<le> ?x / 2 ^ 53" by (simp only: x)
  show ?thesis
  proof (cases "?m = 2 ^ 53")
    case True
    then have res: "round_pos p q e = Finite (2 ^ 52) (e2 + 1)"
      by (simp add: round_pos_def up down)
    have "real_of_int (2 ^ 52) * 2 powi (e2 + 1) = real_of_int ?m * ?B"
      by (simp add: True power_int_add)
    with b res show ?thesis by simp
  next
    case False
    then have "round_pos p q e = Finite ?m e2"
      by (simp add: round_pos_def up down)
    with b m show ?thesis by simp
  qed
qed


lemma double_of_int_100: "double_of_int 100 = Finite 7036874417766400 (- 46)"
  by (simp add: round_pos_def round_scaled_def double_of_int_def round_half_even_def
      scale_up.simps scale_down.simps)

lemma double_value_100: "double_value (Finite 7036874417766400 (- 46)) = 100"
  by (simp add: double_value_def power_int_minus)

lemma truediv_bound:
  assumes "0 < a" and "0 < b"
  shows "\<exists>m e. double_truediv a b = Finite m e \<and> 0 < m
           \<and> \<bar>double_value (Finite m e) - real_of_int a / real_of_int b\<bar>
                \<le> real_of_int a / real_of_int b / 2 ^ 53"
  using round_pos_bound [OF assms, of 0] assms
  by (simp add: double_truediv_def round_scaled_def double_value_def)

lemma times_100_bound:
  assumes "0 < m"
  shows "\<exists>m' e'. double_mul (Finite m e) (double_of_int 100) = Finite m' e'
           \<and> \<bar>double_value (Finite m' e') - double_value (Finite m e) * 100\<bar>
                \<le> double_value (Finite m e) * 100 / 2 ^ 53"
proof -
  from assms have p: "0 < m * 7036874417766400" by simp
  from round_pos_bound [OF p, of 1 "e + - 46"]
  obtain m' e' where r: "round_pos (m * 7036874417766400) 1 (e + - 46) = Finite m' e'"
    and b: "\<bar>real_of_int m' * 2 powi e'
              - real_of_int (m * 7036874417766400) / real_of_int 1 * 2 powi (e + - 46)\<bar>
            \<le> real_of_int (m * 7036874417766400) / real_of_int 1 * 2 powi (e + - 46) / 2 ^ 53"
    by auto
  have pa: "(2::real) powi (e + - 46) = 2 powi e * 2 powi (- 46)"
    by (rule power_int_add) simp
  have c: "(7036874417766400::real) * 2 powi (- 46) = 100"
    by (simp add: power_int_minus)
  have "real_of_int (m * 7036874417766400) / real_of_int 1 * 2 powi (e + - 46)
        = real_of_int m * 7036874417766400 * (2 powi e * 2 powi (- 46))"
    by (simp only: pa of_int_mult of_int_numeral of_int_1 div_by_1)
  also have "\<dots> = (real_of_int m * 2 powi e) * (7036874417766400 * 2 powi (- 46))"
    by (simp only: mult_ac)
  also have "\<dots> = double_value (Finite m e) * 100"
    by (simp only: c double_value_def double.case)
  finally have v: "real_of_int (m * 7036874417766400) / real_of_int 1 * 2 powi (e + - 46)
        = double_value (Finite m e) * 100" .
  from p r have "double_mul (Finite m e) (double_of_int 100) = Finite m' e'"
    by (simp add: double_mul_def double_of_int_100 round_scaled_def)
  with b show ?thesis unfolding v by (simp add: double_value_def)
qed

lemma scaled_abs:
  fixes v x d :: real
  assumes "\<bar>v - x\<bar> \<le> d"
  shows "\<bar>v * 100 - x * 100\<bar> \<le> d * 100"
proof -
  have "v * 100 - x * 100 = (v - x) * 100" by (simp only: left_diff_distrib)
  then have "\<bar>v * 100 - x * 100\<bar> = \<bar>v - x\<bar> * \<bar>100\<bar>" by (simp only: abs_mult)
  also have "\<dots> = \<bar>v - x\<bar> * 100" by simp
  also have "\<dots> \<le> d * 100" using assms by simp
  finally show ?thesis .
qed

lemma rate_arith:
  fixes x v1 v2 :: real
  assumes "0 \<le> x" and "\<bar>v1 - x\<bar> \<le> x / 2 ^ 53" and "\<bar>v2 - v1 * 100\<bar> \<le> v1 * 100 / 2 ^ 53"
  shows "\<bar>v2 - x * 100\<bar> \<le> x * 100 / 2 ^ 51"
proof -
  define d where "d = x / 2 ^ 53"
  have d0: "0 \<le> d" "d \<le> x" using assms(1) by (simp_all add: d_def field_simps)
  from assms(2) have a1: "\<bar>v1 - x\<bar> \<le> d" by (simp only: d_def)
  then have v: "v1 \<le> 2 * x" using d0 by linarith
  have "v1 * 100 / 2 ^ 53 = v1 / 2 ^ 53 * 100" by simp
  also have "v1 / 2 ^ 53 \<le> 2 * x / 2 ^ 53" using v by (simp add: divide_right_mono)
  also have "2 * x / 2 ^ 53 = 2 * d" by (simp add: d_def)
  finally have "v1 * 100 / 2 ^ 53 \<le> 2 * d * 100" by simp
  with assms(3) have a: "\<bar>v2 - v1 * 100\<bar> \<le> 200 * d" by linarith
  from scaled_abs [OF a1] have b: "\<bar>v1 * 100 - x * 100\<bar> \<le> 100 * d" by simp
  have "\<bar>v2 - x * 100\<bar> \<le> \<bar>v2 - v1 * 100\<bar> + \<bar>v1 * 100 - x * 100\<bar>" by linarith
  also have "\<dots> \<le> 300 * d" using a b by linarith
  also have "\<dots> \<le> 400 * d" using d0 by simp
  also have "\<dots> = x * 100 / 2 ^ 51" by (simp add: d_def)
  finally show ?thesis .
qed

lemma double_rate_bound:
  assumes "0 \<le> a" and "0 < b"
  shows "\<exists>r. double_mul (double_truediv a b) (double_of_int 100) = r
           \<and> \<bar>double_value r - real_of_int a / real_of_int b * 100\<bar>
                \<le> real_of_int a / real_of_int b * 100 / 2 ^ 51"
proof (cases "a = 0")
  case True
  with assms(2) show ?thesis
    by (simp add: double_truediv_def round_scaled_def double_mul_def double_of_int_100
        double_value_def)
next
  case False
  with assms(1) have a: "0 < a" by simp
  from truediv_bound [OF a assms(2)] obtain m e where
    q: "double_truediv a b = Finite m e" and m: "0 < m"
    and b1: "\<bar>double_value (Finite m e) - real_of_int a / real_of_int b\<bar>
                \<le> real_of_int a / real_of_int b / 2 ^ 53"
    by blast
  from times_100_bound [OF m, of e] obtain m' e' where
    t: "double_mul (Finite m e) (double_of_int 100) = Finite m' e'"
    and b2: "\<bar>double_value (Finite m' e') - double_value (Finite m e) * 100\<bar>
                \<le> double_value (Finite m e) * 100 / 2 ^ 53"
    by blast
  have "0 \<le> real_of_int a / real_of_int b" using assms by simp
  from rate_arith [OF this b1 b2] q t show ?thesis by simp
qed

subsection \<open>The failover detector, the cooldown and the window\<close>

lemma alert_fired_append: "alert_fired (xs @ ys) \<longleftrightarrow> alert_fired xs \<or> alert_fired ys"
  by (simp add: alert_fired_def)

lemma check_failover_result:
  "\<exists>st' effs. check_failover cfg now outcome p st = Inr (st', effs)
     \<and> last_pool st' = Some p
     \<and> request_window st' = request_window st
     \<and> last_error_alert st' = last_error_alert st
     \<and> (alert_fired effs \<longleftrightarrow>
          (\<exists>prev. last_pool st = Some prev \<and> p \<noteq> prev
             \<and> real_of_int (ALERT_COOLDOWN_SEC cfg) \<le> now - last_failover_alert st))
     \<and> last_failover_alert st' = (if alert_fired effs then now else last_failover_alert st)"
proof (cases "last_pool st")
  case None
  then show ?thesis by (simp add: check_failover_def alert_fired_def)
next
  case (Some prev)
  show ?thesis
  proof (cases "p = prev")
    case True
    with Some show ?thesis by (simp add: check_failover_def alert_fired_def)
  next
    case False
    show ?thesis
    proof (cases "now - last_failover_alert st < real_of_int (ALERT_COOLDOWN_SEC cfg)")
      case True
      with Some False show ?thesis by (simp add: check_failover_def alert_fired_def)
    next
      case cool: False
      obtain ok effs where s: "send_slack_alert cfg outcome (Failover_detected prev p) ''failover'' = Inr (ok, effs)"
        and f: "alert_fired effs"
        using send_slack_alert_total by blast
      from Some False cool s f show ?thesis
        by (simp add: check_failover_def alert_fired_append)
    qed
  qed
qed

lemma check_error_rate_result:
  "\<exists>st' effs. check_error_rate ops cfg now outcome st = Inr (st', effs)
     \<and> last_pool st' = last_pool st
     \<and> request_window st' = request_window st
     \<and> last_failover_alert st' = last_failover_alert st
     \<and> (alert_fired effs \<longleftrightarrow>
          (\<exists>rate. error_rate ops (request_window st) = Some rate
             \<and> greater ops rate (ERROR_RATE_THRESHOLD cfg)
             \<and> real_of_int (ALERT_COOLDOWN_SEC cfg) \<le> now - last_error_alert st))
     \<and> last_error_alert st' = (if alert_fired effs then now else last_error_alert st)"
proof (cases "error_rate ops (request_window st)")
  case None
  then show ?thesis by (simp add: check_error_rate_def alert_fired_def)
next
  case (Some rate)
  show ?thesis
  proof (cases "greater ops rate (ERROR_RATE_THRESHOLD cfg)
                \<and> \<not> now - last_error_alert st < real_of_int (ALERT_COOLDOWN_SEC cfg)")
    case False
    with Some show ?thesis by (auto simp: check_error_rate_def alert_fired_def)
  next
    case True
    obtain ok effs where s: "send_slack_alert cfg outcome
          (High_error_rate rate (ERROR_RATE_THRESHOLD cfg) (error_count (request_window st))
             (length (request_window st)) (WINDOW_SIZE cfg)) ''error'' = Inr (ok, effs)"
      and f: "alert_fired effs"
      using send_slack_alert_total by blast
    from Some True s f show ?thesis
      by (simp add: check_error_rate_def alert_fired_append)
  qed
qed


lemmas step_defs = check_failover_def check_error_rate_def send_slack_alert_def try_post_def
  alert_fired_def emoji_for_def default_config_def initial_state_def py_trunc_def




text \<open>
  Claim C7: when a failover alert fires, \<open>last_failover_alert\<close> is the clock reading
  of that call, and when an error-rate alert fires, \<open>last_error_alert\<close> is; the
  state after the call is the same whatever the POST does (a success, a failure
  response or an exception).
\<close>

theorem firing_sets_timestamp:
  "(check_failover cfg now outcome p st = Inr (st', effs) \<and> alert_fired effs \<longrightarrow>
      last_failover_alert st' = now \<and>
      (\<forall>outcome'. \<exists>effs'. check_failover cfg now outcome' p st = Inr (st', effs')
                              \<and> alert_fired effs'))
   \<and> (check_error_rate ops cfg now outcome st = Inr (st'', effs'') \<and> alert_fired effs'' \<longrightarrow>
      last_error_alert st'' = now \<and>
      (\<forall>outcome'. \<exists>effs'. check_error_rate ops cfg now outcome' st = Inr (st'', effs')
                              \<and> alert_fired effs'))"
proof (intro conjI impI allI)
  assume a: "check_failover cfg now outcome p st = Inr (st', effs) \<and> alert_fired effs"
  with check_failover_result [of cfg now outcome p st]
  show "last_failover_alert st' = now" by auto
  fix outcome'
  from a check_failover_result [of cfg now outcome p st]
  obtain prev where c: "last_pool st = Some prev" "p \<noteq> prev"
    "\<not> now - last_failover_alert st < real_of_int (ALERT_COOLDOWN_SEC cfg)"
    by auto
  obtain ok1 e1 where s1: "send_slack_alert cfg outcome (Failover_detected prev p) ''failover'' = Inr (ok1, e1)"
    using send_slack_alert_total by blast
  obtain ok2 e2 where s2: "send_slack_alert cfg outcome' (Failover_detected prev p) ''failover'' = Inr (ok2, e2)"
    and f2: "alert_fired e2"
    using send_slack_alert_total by blast
  from a c s1 have "st' = st\<lparr>last_failover_alert := now, last_pool := Some p\<rparr>"
    by (simp add: check_failover_def)
  with c s2 f2 show "\<exists>effs'. check_failover cfg now outcome' p st = Inr (st', effs') \<and> alert_fired effs'"
    by (simp add: check_failover_def alert_fired_append)
next
  assume a: "check_error_rate ops cfg now outcome st = Inr (st'', effs'') \<and> alert_fired effs''"
  with check_error_rate_result [of ops cfg now outcome st]
  show "last_error_alert st'' = now" by auto
  fix outcome'
  from a check_error_rate_result [of ops cfg now outcome st]
  obtain rate where c: "error_rate ops (request_window st) = Some rate"
    "greater ops rate (ERROR_RATE_THRESHOLD cfg)"
    "\<not> now - last_error_alert st < real_of_int (ALERT_COOLDOWN_SEC cfg)"
    by auto
  let ?m = "High_error_rate rate (ERROR_RATE_THRESHOLD cfg) (error_count (request_window st))
             (length (request_window st)) (WINDOW_SIZE cfg)"
  obtain ok1 e1 where s1: "send_slack_alert cfg outcome ?m ''error'' = Inr (ok1, e1)"
    using send_slack_alert_total by blast
  obtain ok2 e2 where s2: "send_slack_alert cfg outcome' ?m ''error'' = Inr (ok2, e2)"
    and f2: "alert_fired e2"
    using send_slack_alert_total by blast
  from a c s1 have "st'' = st\<lparr>last_error_alert := now\<rparr>"
    by (simp add: check_error_rate_def)
  with c s2 f2 show "\<exists>effs'. check_error_rate ops cfg now outcome' st = Inr (st'', effs') \<and> alert_fired effs'"
    by (simp add: check_error_rate_def alert_fired_append)
qed


theorem firing_sets_timestamp_witness:
  "(\<exists>st' effs. check_failover (default_config\<lparr>SLACK_WEBHOOK_URL := ''https://hooks.example/T1''\<rparr>)
        1762000000 (Raised Timeout) ''green'' (initial_state\<lparr>last_pool := Some ''blue''\<rparr>)
          = Inr (st', effs)
        \<and> alert_fired effs \<and> Print (Alert_error Timeout) \<in> set effs
        \<and> last_failover_alert st' = 1762000000)
   \<and> (\<exists>st' effs. check_error_rate double_ops
          (default_config\<lparr>SLACK_WEBHOOK_URL := ''https://hooks.example/T1''\<rparr>)
          1762000000 (Response 500 ''oops'')
          (initial_state\<lparr>request_window := [503, 503, 503, 503, 503, 503, 503, 503, 503, 503]\<rparr>)
          = Inr (st', effs)
        \<and> alert_fired effs \<and> Print (Alert_failed_status 500) \<in> set effs
        \<and> last_error_alert st' = 1762000000)"
proof -
  let ?cfg = "default_config\<lparr>SLACK_WEBHOOK_URL := ''https://hooks.example/T1''\<rparr>"
  let ?s1 = "initial_state\<lparr>last_pool := Some ''blue''\<rparr>"
  let ?s2 = "initial_state\<lparr>request_window := [503, 503, 503, 503, 503, 503, 503, 503, 503, 503]\<rparr>"
  obtain st1 e1 where a: "check_failover ?cfg 1762000000 (Raised Timeout) ''green'' ?s1 = Inr (st1, e1)"
    and a': "alert_fired e1" "Print (Alert_error Timeout) \<in> set e1"
    by (simp add: step_defs)
  obtain st2 e2 where b: "check_error_rate double_ops ?cfg 1762000000 (Response 500 ''oops'') ?s2 = Inr (st2, e2)"
    and b': "alert_fired e2" "Print (Alert_failed_status 500) \<in> set e2"
    by (simp add: step_defs error_rate_def error_count_def double_defs)
  from firing_sets_timestamp [where cfg = ?cfg and now = 1762000000 and outcome = "Raised Timeout"
      and p = "''green''" and st = ?s1 and st' = st1 and effs = e1] a a'
  have "last_failover_alert st1 = 1762000000" by simp
  moreover
  from firing_sets_timestamp [where cfg = ?cfg and now = 1762000000
      and outcome = "Response 500 ''oops''" and st = ?s2 and ops = double_ops
      and st'' = st2 and effs'' = e2] b b'
  have "last_error_alert st2 = 1762000000" by simp
  ultimately show ?thesis using a a' b b' by simp
qed

lemma sum_list_ones: "sum_list (map (\<lambda>x. 1) xs) = int (length xs)"
  by (induction xs) simp_all

lemma error_count_length: "error_count w = int (length (filter (\<lambda>status. 500 \<le> status) w))"
  by (simp add: error_count_def sum_list_ones)

text \<open>
  Claim C5, as the code has it: a window of fewer than ten entries has no rate, and
  \<^verbatim>\<open>check_error_rate\<close> then changes nothing and prints or posts nothing, whatever
  the entries are. A window of \<open>T \<ge> 10\<close> entries of which \<open>E\<close> are at least 500 has
  the rate \<open>E / T * 100\<close> as double-precision arithmetic computes it: the quotient
  rounded to the nearest double, times 100, rounded again. That number differs from
  the exact \<open>E / T * 100\<close> by at most the \<open>2 ^ 51\<close>th part of it.
\<close>

theorem rolling_error_rate_double:
  "(length w < 10 \<longrightarrow>
      error_rate ops w = None \<and>
      (\<forall>cfg now outcome st. request_window st = w \<longrightarrow>
         check_error_rate ops cfg now outcome st = Inr (st, [])))
   \<and> (10 \<le> length w \<longrightarrow>
      (\<exists>r. error_rate double_ops w = Some r
         \<and> r = double_mul
                 (double_truediv (int (length (filter (\<lambda>status. 500 \<le> status) w)))
                    (int (length w)))
                 (double_of_int 100)
         \<and> \<bar>double_value r
              - real (length (filter (\<lambda>status. 500 \<le> status) w)) / real (length w) * 100\<bar>
             \<le> real (length (filter (\<lambda>status. 500 \<le> status) w)) / real (length w) * 100
                  / 2 ^ 51))"
proof (rule conjI; rule impI)
  assume "length w < 10"
  then show "error_rate ops w = None \<and>
      (\<forall>cfg now outcome st. request_window st = w \<longrightarrow>
         check_error_rate ops cfg now outcome st = Inr (st, []))"
    by (simp add: error_rate_def check_error_rate_def)
next
  assume l: "10 \<le> length w"
  let ?E = "length (filter (\<lambda>status. 500 \<le> status) w)"
  let ?r = "double_mul (double_truediv (int ?E) (int (length w))) (double_of_int 100)"
  have "0 \<le> int ?E" by simp
  moreover from l have "0 < int (length w)" by linarith
  ultimately have "0 \<le> int ?E" "0 < int (length w)" .
  from double_rate_bound [OF this]
  have "\<bar>double_value ?r - real ?E / real (length w) * 100\<bar>
          \<le> real ?E / real (length w) * 100 / 2 ^ 51"
    by simp
  moreover from l have "error_rate double_ops w = Some ?r"
    by (simp add: error_rate_def error_count_length double_ops_def)
  ultimately show "\<exists>r. error_rate double_ops w = Some r \<and> r = ?r
         \<and> \<bar>double_value r - real ?E / real (length w) * 100\<bar>
             \<le> real ?E / real (length w) * 100 / 2 ^ 51"
    by simp
qed

theorem rolling_error_rate_double_witness:
  "error_rate double_ops [503, 200, 503] = None
   \<and> check_error_rate double_ops default_config 1762000000 (Response 200 [])
        (initial_state\<lparr>request_window := [503, 200, 503]\<rparr>)
      = Inr (initial_state\<lparr>request_window := [503, 200, 503]\<rparr>, [])
   \<and> (\<exists>r. error_rate double_ops [503, 503, 503, 503, 503, 503, 503, 503, 503, 503, 200]
             = Some r
          \<and> \<bar>double_value r - 10 / 11 * 100\<bar> \<le> 10 / 11 * 100 / 2 ^ 51)"
  using rolling_error_rate_double [of "[503, 200, 503]" double_ops]
    rolling_error_rate_double [of "[503, 503, 503, 503, 503, 503, 503, 503, 503, 503, 200]" double_ops]
  by simp

text \<open>
  Claim C5 as worded has the computed rate equal to \<open>E / T * 100\<close> exactly. With 11
  entries from 500 on among 20, the exact rate is 55 and the code computes the next
  double above it, \<open>55 + 1 / 2 ^ 47\<close> (printed as \<^verbatim>\<open>55.00000000000001\<close>).
\<close>

theorem rate_not_exact_counterexample:
  "error_rate double_ops
     [503, 503, 503, 503, 503, 503, 503, 503, 503, 503, 503,
      200, 200, 200, 200, 200, 200, 200, 200, 200]
     = Some (Finite 7740561859543041 (- 47))
   \<and> double_value (Finite 7740561859543041 (- 47)) = 55 + 1 / 2 ^ 47
   \<and> double_value (Finite 7740561859543041 (- 47)) \<noteq> 11 / 20 * 100"
  by (simp add: error_rate_def error_count_def double_defs double_value_def power_int_minus)

lemma parse_empty: "parse_log_line [] = None"
  by (simp add: parse_log_line_def LOG_PATTERN_match_def lit_pool_def)

lemma strip_empty: "strip [] = []"
  by (simp add: strip_def)

lemma process_line_result:
  "\<exists>st' effs. process_line ops cfg ev raw st = Inr (st', effs)
     \<and> last_pool st' = (case known_pool raw of Some p \<Rightarrow> Some p | None \<Rightarrow> last_pool st)
     \<and> request_window st' =
         (case admitted_status raw of
            Some s \<Rightarrow> deque_append (WINDOW_SIZE cfg) (request_window st) s
          | None \<Rightarrow> request_window st)"
proof (cases "parse_log_line (strip raw)")
  case None
  then show ?thesis
    by (simp add: process_line_def known_pool_def admitted_status_def)
next
  case (Some data)
  then have ne: "strip raw \<noteq> []" "raw \<noteq> []"
    using parse_empty strip_empty by auto
  let ?st0 = "track_request cfg (upstream_status data) st"
  have w0: "request_window ?st0 =
      (case admitted_status raw of
         Some s \<Rightarrow> deque_append (WINDOW_SIZE cfg) (request_window st) s
       | None \<Rightarrow> request_window st)"
    and p0: "last_pool ?st0 = last_pool st"
    using Some by (simp_all add: track_request_def admitted_status_def)
  obtain st1 effs1 where f:
      "(if pool data \<noteq> [] \<and> pool data \<noteq> ''unknown''
        then check_failover cfg (failover_clock ev) (failover_post ev) (pool data) ?st0
        else Inr (?st0, [])) = Inr (st1, effs1)"
    and p1: "last_pool st1 = (case known_pool raw of Some p \<Rightarrow> Some p | None \<Rightarrow> last_pool st)"
    and w1: "request_window st1 = request_window ?st0"
  proof (cases "pool data \<noteq> [] \<and> pool data \<noteq> ''unknown''")
    case True
    from check_failover_result [of cfg "failover_clock ev" "failover_post ev" "pool data" ?st0]
    obtain st1 effs1 where
      "check_failover cfg (failover_clock ev) (failover_post ev) (pool data) ?st0 = Inr (st1, effs1)"
      "last_pool st1 = Some (pool data)" "request_window st1 = request_window ?st0"
      by blast
    with True Some that show ?thesis by (simp add: known_pool_def)
  next
    case False
    with Some p0 that [of ?st0 "[]"] show ?thesis by (simp add: known_pool_def)
  qed
  from check_error_rate_result [of ops cfg "error_clock ev" "error_post ev" st1]
  obtain st2 effs2 where e:
    "check_error_rate ops cfg (error_clock ev) (error_post ev) st1 = Inr (st2, effs2)"
    "last_pool st2 = last_pool st1" "request_window st2 = request_window st1"
    by blast
  from Some ne f e have "process_line ops cfg ev raw st = Inr (st2, effs1 @ effs2)"
    by (simp add: process_line_def)
  with e p1 w1 w0 show ?thesis by simp
qed

lemma process_lines_result:
  "\<exists>st' effs. process_lines ops cfg steps st = Inr (st', effs)
     \<and> last_pool st' =
         (if known_pools (map snd steps) = [] then last_pool st
          else Some (last (known_pools (map snd steps))))
     \<and> request_window st' =
         foldl (deque_append (WINDOW_SIZE cfg)) (request_window st)
           (admitted_statuses (map snd steps))"
proof (induction steps arbitrary: st)
  case Nil
  then show ?case by (simp add: known_pools_def admitted_statuses_def map_filter_simps)
next
  case (Cons step steps)
  obtain ev raw where step: "step = (ev, raw)" by (cases step)
  from process_line_result [of ops cfg ev raw st]
  obtain st1 effs1 where a: "process_line ops cfg ev raw st = Inr (st1, effs1)"
    and p1: "last_pool st1 = (case known_pool raw of Some p \<Rightarrow> Some p | None \<Rightarrow> last_pool st)"
    and w1: "request_window st1 =
         (case admitted_status raw of
            Some s \<Rightarrow> deque_append (WINDOW_SIZE cfg) (request_window st) s
          | None \<Rightarrow> request_window st)"
    by blast
  from Cons.IH [of st1]
  obtain st2 effs2 where b: "process_lines ops cfg steps st1 = Inr (st2, effs2)"
    and p2: "last_pool st2 =
         (if known_pools (map snd steps) = [] then last_pool st1
          else Some (last (known_pools (map snd steps))))"
    and w2: "request_window st2 =
         foldl (deque_append (WINDOW_SIZE cfg)) (request_window st1)
           (admitted_statuses (map snd steps))"
    by blast
  from a b step have r: "process_lines ops cfg (step # steps) st = Inr (st2, effs1 @ effs2)"
    by simp
  have p: "last_pool st2 =
         (if known_pools (map snd (step # steps)) = [] then last_pool st
          else Some (last (known_pools (map snd (step # steps)))))"
    using p1 p2 step by (cases "known_pool raw") (simp_all add: known_pools_def map_filter_simps)
  have w: "request_window st2 =
         foldl (deque_append (WINDOW_SIZE cfg)) (request_window st)
           (admitted_statuses (map snd (step # steps)))"
    using w1 w2 step
    by (cases "admitted_status raw") (simp_all add: admitted_statuses_def map_filter_simps)
  from r p w show ?case by blast
qed

lemma deque_append_drop:
  assumes "length w \<le> C"
  shows "deque_append C w x = drop (length (w @ [x]) - C) (w @ [x])"
proof (cases "C < length (w @ [x])")
  case True
  with assms have k: "length (w @ [x]) - C = Suc 0" by simp
  have "drop (Suc 0) (w @ [x]) = tl (w @ [x])" by (simp only: drop_Suc drop_0)
  with True k show ?thesis by (simp only: deque_append_def if_True)
next
  case False
  then show ?thesis by (simp add: deque_append_def)
qed

lemma drop_then_append: "k \<le> length ys \<Longrightarrow> drop k ys @ xs = drop k (ys @ xs)"
  by simp

lemma drop_drop_keep:
  assumes "k \<le> length zs - C"
  shows "drop (length (drop k zs) - C) (drop k zs) = drop (length zs - C) zs"
proof -
  from assms have "length zs - k - C + k = length zs - C" by arith
  then show ?thesis by (simp add: drop_drop)
qed

lemma foldl_deque_append:
  "length w \<le> C \<Longrightarrow>
     foldl (deque_append C) w xs = drop (length (w @ xs) - C) (w @ xs)"
proof (induction xs arbitrary: w)
  case Nil
  then show ?case by simp
next
  case (Cons x xs)
  let ?k = "length (w @ [x]) - C"
  let ?w = "drop ?k (w @ [x])"
  have d: "deque_append C w x = ?w"
    using Cons.prems by (rule deque_append_drop)
  have l: "length ?w \<le> C" by simp
  have z: "(w @ [x]) @ xs = w @ x # xs" by simp
  have "?k \<le> length (w @ [x])" by simp
  then have e: "?w @ xs = drop ?k (w @ x # xs)"
    using drop_then_append [of ?k "w @ [x]" xs] by (simp only: z)
  have k: "?k \<le> length (w @ x # xs) - C" by simp
  have "foldl (deque_append C) w (x # xs) = foldl (deque_append C) ?w xs"
    by (simp only: foldl_Cons d)
  also have "\<dots> = drop (length (?w @ xs) - C) (?w @ xs)"
    using l by (rule Cons.IH)
  also have "\<dots> = drop (length (drop ?k (w @ x # xs)) - C) (drop ?k (w @ x # xs))"
    by (simp only: e)
  also have "\<dots> = drop (length (w @ x # xs) - C) (w @ x # xs)"
    using k by (rule drop_drop_keep)
  finally show ?case .
qed

lemma admitted_statuses_positive: "\<forall>s \<in> set (admitted_statuses raws). 0 < s"
  by (induction raws)
     (auto simp: admitted_statuses_def map_filter_simps admitted_status_def
           split: option.splits if_splits)


text \<open>
  Claim C3: after the loop has handled a sequence of lines of which at least one has a
  known pool, the recorded pool is the pool of the last such line. This holds for
  every clock reading and every outcome of a POST, so also when the alert of a change
  is suppressed by the cooldown.
\<close>

theorem recorded_pool_is_latest:
  assumes "known_pools (map snd steps) \<noteq> []"
  shows "\<exists>st' effs. process_lines ops cfg steps st = Inr (st', effs)
           \<and> last_pool st' = Some (last (known_pools (map snd steps)))"
  using process_lines_result [of ops cfg steps st] assms by auto

lemmas line_defs = known_pools_def known_pool_def admitted_statuses_def admitted_status_def
  map_filter_simps parser_defs int_defs

theorem recorded_pool_is_latest_witness:
  \<open>\<exists>st' effs. process_lines double_ops default_config
      [(\<lparr>failover_clock = 1762000000, failover_post = Response 200 [],
          error_clock = 1762000000, error_post = Response 200 []\<rparr>,
        ''pool="blue" release="v1" upstream_status="200" upstream_addr="10.0.0.1:80"''),
       (\<lparr>failover_clock = 1762000010, failover_post = Response 200 [],
          error_clock = 1762000010, error_post = Response 200 []\<rparr>,
        ''pool="green" release="v1" upstream_status="200" upstream_addr="10.0.0.2:80"''),
       (\<lparr>failover_clock = 1762000011, failover_post = Response 200 [],
          error_clock = 1762000011, error_post = Response 200 []\<rparr>,
        ''pool="blue" release="v1" upstream_status="200" upstream_addr="10.0.0.1:80"'')]
      initial_state = Inr (st', effs)
     \<and> last_pool st' = Some ''blue''\<close>
  using recorded_pool_is_latest [of
      \<open>[(\<lparr>failover_clock = 1762000000, failover_post = Response 200 [],
          error_clock = 1762000000, error_post = Response 200 []\<rparr>,
        ''pool="blue" release="v1" upstream_status="200" upstream_addr="10.0.0.1:80"''),
       (\<lparr>failover_clock = 1762000010, failover_post = Response 200 [],
          error_clock = 1762000010, error_post = Response 200 []\<rparr>,
        ''pool="green" release="v1" upstream_status="200" upstream_addr="10.0.0.2:80"''),
       (\<lparr>failover_clock = 1762000011, failover_post = Response 200 [],
          error_clock = 1762000011, error_post = Response 200 []\<rparr>,
        ''pool="blue" release="v1" upstream_status="200" upstream_addr="10.0.0.1:80"'')]\<close>
      double_ops default_config initial_state]
  by (simp add: line_defs)

text \<open>
  Claim C4: from the initial state, after the loop has handled lines with \<open>N\<close>
  positive statuses, where \<open>N\<close> is at least the window size \<open>C\<close>, the window holds
  the last \<open>C\<close> of them, in the order of the lines. A status that is not positive
  leaves the window as it is.
\<close>

theorem window_holds_last_entries:
  assumes "WINDOW_SIZE cfg \<le> length (admitted_statuses (map snd steps))"
  shows "\<exists>st' effs. process_lines ops cfg steps initial_state = Inr (st', effs)
           \<and> request_window st' =
               drop (length (admitted_statuses (map snd steps)) - WINDOW_SIZE cfg)
                 (admitted_statuses (map snd steps))
           \<and> length (request_window st') = WINDOW_SIZE cfg
           \<and> (\<forall>s \<in> set (request_window st'). 0 < s)
           \<and> (\<forall>s st. s \<le> 0 \<longrightarrow> track_request cfg s st = st)"
proof -
  let ?adm = "admitted_statuses (map snd steps)"
  from process_lines_result [of ops cfg steps initial_state]
  obtain st' effs where r: "process_lines ops cfg steps initial_state = Inr (st', effs)"
    and w: "request_window st' = foldl (deque_append (WINDOW_SIZE cfg)) [] ?adm"
    by (auto simp: initial_state_def)
  have "foldl (deque_append (WINDOW_SIZE cfg)) [] ?adm
          = drop (length ([] @ ?adm) - WINDOW_SIZE cfg) ([] @ ?adm)"
    by (rule foldl_deque_append) simp
  with w have d: "request_window st' = drop (length ?adm - WINDOW_SIZE cfg) ?adm" by simp
  from d assms have l: "length (request_window st') = WINDOW_SIZE cfg" by simp
  have p: "\<forall>s \<in> set (request_window st'). 0 < s"
    unfolding d using admitted_statuses_positive [of "map snd steps"]
    by (auto dest: in_set_dropD)
  have t: "\<forall>s st. s \<le> 0 \<longrightarrow> track_request cfg s st = st"
    by (simp add: track_request_def)
  from r d l p t show ?thesis by blast
qed

theorem window_holds_last_entries_witness:
  \<open>\<exists>st' effs. process_lines double_ops (default_config\<lparr>WINDOW_SIZE := 2\<rparr>)
      [(\<lparr>failover_clock = 1762000000, failover_post = Response 200 [],
          error_clock = 1762000000, error_post = Response 200 []\<rparr>,
        ''pool="blue" release="v1" upstream_status="200" upstream_addr="10.0.0.1:80"''),
       (\<lparr>failover_clock = 1762000001, failover_post = Response 200 [],
          error_clock = 1762000001, error_post = Response 200 []\<rparr>,
        ''pool="blue" release="v1" upstream_status="-" upstream_addr="-"''),
       (\<lparr>failover_clock = 1762000002, failover_post = Response 200 [],
          error_clock = 1762000002, error_post = Response 200 []\<rparr>,
        ''pool="blue" release="v1" upstream_status="502, 503" upstream_addr="10.0.0.1:80"''),
       (\<lparr>failover_clock = 1762000003, failover_post = Response 200 [],
          error_clock = 1762000003, error_post = Response 200 []\<rparr>,
        ''pool="blue" release="v1" upstream_status="404" upstream_addr="10.0.0.1:80"'')]
      initial_state = Inr (st', effs)
     \<and> request_window st' = [503, 404]\<close>
proof -
  let ?cfg = "default_config\<lparr>WINDOW_SIZE := 2\<rparr>"
  let ?steps = \<open>[(\<lparr>failover_clock = 1762000000, failover_post = Response 200 [],
          error_clock = 1762000000, error_post = Response 200 []\<rparr>,
        ''pool="blue" release="v1" upstream_status="200" upstream_addr="10.0.0.1:80"''),
       (\<lparr>failover_clock = 1762000001, failover_post = Response 200 [],
          error_clock = 1762000001, error_post = Response 200 []\<rparr>,
        ''pool="blue" release="v1" upstream_status="-" upstream_addr="-"''),
       (\<lparr>failover_clock = 1762000002, failover_post = Response 200 [],
          error_clock = 1762000002, error_post = Response 200 []\<rparr>,
        ''pool="blue" release="v1" upstream_status="502, 503" upstream_addr="10.0.0.1:80"''),
       (\<lparr>failover_clock = 1762000003, failover_post = Response 200 [],
          error_clock = 1762000003, error_post = Response 200 []\<rparr>,
        ''pool="blue" release="v1" upstream_status="404" upstream_addr="10.0.0.1:80"'')]\<close>
  have a: "admitted_statuses (map snd ?steps) = [200, 503, 404]"
    by (simp add: line_defs)
  have c: "WINDOW_SIZE ?cfg = 2" by (simp add: default_config_def)
  have h: "WINDOW_SIZE ?cfg \<le> length (admitted_statuses (map snd ?steps))"
    by (simp only: a c) simp
  from window_holds_last_entries [OF h, of double_ops]
  obtain st' effs where "process_lines double_ops ?cfg ?steps initial_state = Inr (st', effs)"
    and "request_window st' =
           drop (length (admitted_statuses (map snd ?steps)) - WINDOW_SIZE ?cfg)
             (admitted_statuses (map snd ?steps))"
    by blast
  then have "process_lines double_ops ?cfg ?steps initial_state = Inr (st', effs)
      \<and> request_window st' = [503, 404]"
    by (simp only: a c) simp
  then show ?thesis by blast
qed

end
